theory Spec2Isabelle
  imports Main "HOL-Library.Sublist"
begin

section \<open>Strings\<close>

text \<open>
  The enumeration names and values of the repository are ASCII, so \<open>str.replace\<close> and
  \<open>str.title\<close> are modelled on ASCII letters: a character is cased when it is a letter.
\<close>

definition lower_letters :: string where
  "lower_letters = ''abcdefghijklmnopqrstuvwxyz''"

definition upper_letters :: string where
  "upper_letters = ''ABCDEFGHIJKLMNOPQRSTUVWXYZ''"

definition is_cased :: "char \<Rightarrow> bool" where
  "is_cased c = (c \<in> set (lower_letters @ upper_letters))"

definition to_upper :: "char \<Rightarrow> char" where
  "to_upper c = (case map_of (zip lower_letters upper_letters) c of Some u \<Rightarrow> u | None \<Rightarrow> c)"

definition to_lower :: "char \<Rightarrow> char" where
  "to_lower c = (case map_of (zip upper_letters lower_letters) c of Some l \<Rightarrow> l | None \<Rightarrow> c)"

text \<open>\<open>s.replace("_", " ")\<close>: both strings have one character, so it is a map.\<close>

definition replace_underscores :: "string \<Rightarrow> string" where
  "replace_underscores s = map (\<lambda>c. if c = CHR ''_'' then CHR '' '' else c) s"

text \<open>
  \<open>str.title\<close>: a character that follows a cased character is lowered, any other
  character is raised. The flag is \<open>previous_is_cased\<close>.
\<close>

fun title_from :: "bool \<Rightarrow> string \<Rightarrow> string" where
  "title_from previous_is_cased [] = []"
| "title_from previous_is_cased (c # cs) =
     (if previous_is_cased then to_lower c else to_upper c) # title_from (is_cased c) cs"

definition title :: "string \<Rightarrow> string" where
  "title s = title_from False s"

section \<open>utils/enums.py: ChoicesEnum, and orders/models.py: Order.State\<close>

text \<open>
  The members of \<open>Order.State\<close>, in the order of the class body. The class body gives
  each member either a string or a tuple of two strings ("Enum Values should be either
  a string or a tuple of size 2").
\<close>

datatype State =
  PENDING_PAYMENT | PROCESSING | OUT_FOR_DELIVERY | DELIVERED | CANCELLED | REFUNDED

datatype member_value = Bare string | Pair string string

text \<open>Iterating over the class yields the members in definition order.\<close>

definition members :: "State list" where
  "members = [PENDING_PAYMENT, PROCESSING, OUT_FOR_DELIVERY, DELIVERED, CANCELLED, REFUNDED]"

fun member_name :: "State \<Rightarrow> string" where
  "member_name PENDING_PAYMENT = ''PENDING_PAYMENT''"
| "member_name PROCESSING = ''PROCESSING''"
| "member_name OUT_FOR_DELIVERY = ''OUT_FOR_DELIVERY''"
| "member_name DELIVERED = ''DELIVERED''"
| "member_name CANCELLED = ''CANCELLED''"
| "member_name REFUNDED = ''REFUNDED''"

fun class_body :: "State \<Rightarrow> member_value" where
  "class_body PENDING_PAYMENT = Bare ''pending_payment''"
| "class_body PROCESSING = Bare ''processing''"
| "class_body OUT_FOR_DELIVERY = Bare ''out_for_delivery''"
| "class_body DELIVERED = Pair ''delivered'' ''Package Delivered''"
| "class_body CANCELLED = Bare ''cancelled''"
| "class_body REFUNDED = Bare ''refunded''"

text \<open>
  \<open>ChoicesEnum.__new__\<close>: the member's value is \<open>value[0]\<close>, where \<open>value\<close> is
  the tuple of the class body (a bare string \<open>v\<close> arrives as the tuple \<open>(v,)\<close>).
\<close>

fun new_value :: "member_value \<Rightarrow> string" where
  "new_value (Bare v) = v"
| "new_value (Pair v d) = v"

definition value_of :: "State \<Rightarrow> string" where
  "value_of e = new_value (class_body e)"

text \<open>
  \<open>ChoicesEnum.__init__\<close>:
  \<open>self.desc = value[1] if len(value) > 1 else self._name_.replace("_", " ").title()\<close>.
\<close>

definition desc :: "State \<Rightarrow> string" where
  "desc e = (case class_body e of
      Pair v d \<Rightarrow> d
    | Bare v \<Rightarrow> title (replace_underscores (member_name e)))"

text \<open>\<open>ChoicesEnum.choices\<close>: \<open>[(e.value, e.desc) for e in cls]\<close>.\<close>

definition choices :: "(string \<times> string) list" where
  "choices = map (\<lambda>e. (value_of e, desc e)) members"

text \<open>
  The argument of \<open>is_valid\<close> is any object: a member of the class, a plain string,
  or an object that is neither.
\<close>

datatype candidate = Member State | Plain string | Other_object

text \<open>
  \<open>ChoicesEnum.is_valid\<close>: true for an instance of the class, membership among the
  members' values for a string, false otherwise.
\<close>

fun is_valid :: "candidate \<Rightarrow> bool" where
  "is_valid (Member e) = True"
| "is_valid (Plain s) = (s \<in> set (map value_of members))"
| "is_valid Other_object = False"

text \<open>
  \<open>Order.State(v)\<close>, the lookup of a member by its value that \<open>enum.Enum\<close> provides:
  the member whose value is \<open>v\<close>; \<open>None\<close> stands for the \<open>ValueError\<close> that the
  lookup raises when no member has that value.
\<close>

definition State_call :: "string \<Rightarrow> State option" where
  "State_call v = find (\<lambda>e. value_of e = v) members"

text \<open>
  \<open>str(e)\<close> and the formatting of a member in an f-string: \<open>str\<close> precedes
  \<open>Enum\<close> in the bases of \<open>ChoicesEnum\<close>, so both give the string the member is,
  its value.
\<close>

definition str_State :: "State \<Rightarrow> string" where
  "str_State e = value_of e"

section \<open>Errors and keyword arguments\<close>

text \<open>
  The exceptions of the repository: every \<open>raise\<close> of the source raises
  \<open>ValueError\<close> with a message. \<open>TypeError\<close> is what the interpreter raises when a
  call cannot bind its arguments or an operator does not accept its operands; its
  message is not modelled. A hook written elsewhere may raise any other exception.
  A call returns the state it leaves behind together with \<open>None\<close> when it returned
  normally and \<open>Some e\<close> when it raised \<open>e\<close>: an object mutated before a raise stays
  mutated.
\<close>

datatype error = ValueError string | TypeError | Other_exception string

text \<open>\<open>**kwargs\<close>: a dict with string keys, over any type of values.\<close>

type_synonym 'v kwargs = "string \<rightharpoonup> 'v"

section \<open>orders/models.py: Order and OrderLog\<close>

text \<open>
  \<open>price\<close> is the value of a \<open>DecimalField\<close>, a \<open>decimal.Decimal\<close> on every instance
  read from the database or cleaned by a form: a coefficient and an exponent of ten.
\<close>

datatype decimal = Decimal (coefficient: int) (exponent: int)

text \<open>
  The fields of \<open>Order\<close>. Timestamps are natural numbers. \<open>state_changed\<close> is a
  \<open>MonitorField\<close> of django-model-utils that monitors \<open>state\<close>: the field keeps, in the
  instance, the value of \<open>state\<close> it saw last (here \<open>monitor_state\<close>, set when the
  instance is initialised).
\<close>

record 'v Order =
  item :: string
  state :: State
  state_changed :: nat
  price :: decimal
  metadata :: "string \<rightharpoonup> 'v"
  monitor_state :: State

record 'v OrderLog =
  timestamp :: nat
  old_state :: State
  new_state :: State
  extra :: "string \<rightharpoonup> 'v"

text \<open>\<open>Order._state_map\<close>, a dict from a state to a tuple of states.\<close>

fun state_map :: "State \<Rightarrow> State list option" where
  "state_map PENDING_PAYMENT = Some [PROCESSING, CANCELLED]"
| "state_map PROCESSING = Some [OUT_FOR_DELIVERY, REFUNDED]"
| "state_map OUT_FOR_DELIVERY = Some [DELIVERED, REFUNDED]"
| "state_map DELIVERED = Some [REFUNDED]"
| "state_map CANCELLED = None"
| "state_map REFUNDED = None"

text \<open>\<open>Order.get_possible_next_states\<close>: \<open>self._state_map.get(self.state, ())\<close>.\<close>

definition get_possible_next_states :: "'v Order \<Rightarrow> State list" where
  "get_possible_next_states self =
     (case state_map (state self) of None \<Rightarrow> [] | Some next_states \<Rightarrow> next_states)"

text \<open>
  What one call of \<open>transition_state\<close> works on: the instance in memory (\<open>self\<close>), its
  row in the table \<open>orders\<close> (\<open>None\<close> before the first save), and \<open>self.logs\<close>, the rows
  of \<open>order_logs\<close> that belong to the order, oldest first. \<open>trace\<close> records, in order, the
  calls of hooks and the steps of the commit made so far.
\<close>

datatype event = Hook_called string string | State_assigned State | Saved | Log_created

record 'v world =
  entity :: "'v Order"
  row :: "'v Order option"
  logs :: "'v OrderLog list"
  trace :: "event list"

section \<open>utils/enums.py: HooksMixin\<close>

text \<open>
  A hook is a function, known by its name, called as \<open>hook(order, **kwargs)\<close>. It may
  mutate the order in place and may raise.
\<close>

datatype 'v hook =
  Hook (hook_name: string) (hook_call: "'v Order \<Rightarrow> 'v kwargs \<Rightarrow> 'v Order \<times> error option")

text \<open>
  Every member has its own dict \<open>_hooks\<close>, from a name (\<open>"before"\<close>, \<open>"after"\<close>) to the
  list of hooks registered under it; \<open>HooksMixin.__init__\<close> makes it empty.
\<close>

type_synonym 'v registry = "State \<Rightarrow> (string \<rightharpoonup> 'v hook list)"

definition no_hooks :: "'v registry" where
  "no_hooks = (\<lambda>self. Map.empty)"

text \<open>
  \<open>self.register_hook(name)(func)\<close>, the use of \<open>register_hook\<close> as a decorator: the
  list of \<open>name\<close> is created when \<open>name\<close> is new, and \<open>func\<close> is appended to it.
\<close>

definition register_hook :: "State \<Rightarrow> string \<Rightarrow> 'v hook \<Rightarrow> 'v registry \<Rightarrow> 'v registry" where
  "register_hook self name func reg =
     reg(self := (reg self)(name \<mapsto> (case reg self name of None \<Rightarrow> [] | Some hs \<Rightarrow> hs) @ [func]))"

text \<open>The loop \<open>for hook in self._hooks[name]: hook(*args, **kwargs)\<close>.\<close>

fun run_hooks :: "string \<Rightarrow> 'v hook list \<Rightarrow> 'v kwargs \<Rightarrow> 'v world \<Rightarrow> 'v world \<times> error option" where
  "run_hooks name [] kwargs w = (w, None)"
| "run_hooks name (h # hs) kwargs w =
     (case hook_call h (entity w) kwargs of
        (order, Some e) \<Rightarrow>
          (w\<lparr>entity := order, trace := trace w @ [Hook_called name (hook_name h)]\<rparr>, Some e)
      | (order, None) \<Rightarrow>
          run_hooks name hs kwargs
            (w\<lparr>entity := order, trace := trace w @ [Hook_called name (hook_name h)]\<rparr>))"

text \<open>
  \<open>HooksMixin.execute_hooks(self, name, *args, **kwargs)\<close>, called as
  \<open>new_state.execute_hooks(name, order, **kwargs)\<close>. \<open>self\<close> and \<open>name\<close> are bound by
  position, so a key \<open>self\<close> or \<open>name\<close> in \<open>kwargs\<close> gives the parameter a second value
  and the call raises \<open>TypeError\<close> before the body runs.
\<close>

definition execute_hooks ::
    "'v registry \<Rightarrow> State \<Rightarrow> string \<Rightarrow> 'v kwargs \<Rightarrow> 'v world \<Rightarrow> 'v world \<times> error option" where
  "execute_hooks reg self name kwargs w =
     (if ''self'' \<in> dom kwargs \<or> ''name'' \<in> dom kwargs then (w, Some TypeError)
      else case reg self name of
             None \<Rightarrow> (w, None)
           | Some hs \<Rightarrow> run_hooks name hs kwargs w)"

section \<open>orders/models.py: Order.transition_state\<close>

text \<open>
  \<open>self.save()\<close>. \<open>MonitorField.pre_save\<close> reads the clock (\<open>now\<close>) and, when
  \<open>state\<close> differs from the value it saw last, sets \<open>state_changed\<close> to it and
  remembers the new state; then every field is written to the row.
\<close>

definition save :: "nat \<Rightarrow> 'v world \<Rightarrow> 'v world" where
  "save now w =
     (let self = entity w;
          self' = (if monitor_state self \<noteq> state self
                   then self\<lparr>state_changed := now, monitor_state := state self\<rparr>
                   else self)
      in w\<lparr>entity := self', row := Some self', trace := trace w @ [Saved]\<rparr>)"

text \<open>
  \<open>self.logs.create(old_state=..., new_state=..., extra=...)\<close>: a new row of
  \<open>order_logs\<close> for this order; \<open>timestamp\<close> is an \<open>AutoCreatedField\<close>, the clock
  (\<open>now\<close>) when the row is made.
\<close>

definition logs_create :: "nat \<Rightarrow> State \<Rightarrow> State \<Rightarrow> 'v kwargs \<Rightarrow> 'v world \<Rightarrow> 'v world" where
  "logs_create now old new kwargs w =
     w\<lparr>logs := logs w @ [\<lparr>timestamp = now, old_state = old, new_state = new, extra = kwargs\<rparr>],
       trace := trace w @ [Log_created]\<rparr>"

text \<open>The message of line 46, \<open>f"Can't transition from {old_state} to {new_state}"\<close>.\<close>

definition cant_transition :: "State \<Rightarrow> State \<Rightarrow> string" where
  "cant_transition old new = ''Can't transition from '' @ str_State old @ '' to '' @ str_State new"

text \<open>
  \<open>Order.transition_state(self, new_state, **kwargs)\<close>, called as
  \<open>order.transition_state(new_state, **kwargs)\<close> (so does \<open>admin.py\<close>, with the
  keyword arguments read from the request), with the registry of hooks as it is when
  the call is made and the two readings of the clock, \<open>saved_at\<close> by \<open>self.save()\<close>
  and \<open>logged_at\<close> by \<open>self.logs.create\<close>. \<open>self\<close> and \<open>new_state\<close> are bound by
  position, so a key \<open>self\<close> or \<open>new_state\<close> among the keyword arguments gives the
  parameter a second value and the call raises \<open>TypeError\<close> before the body runs. The
  database calls are taken to succeed.
\<close>

definition transition_state ::
    "'v registry \<Rightarrow> nat \<Rightarrow> nat \<Rightarrow> State \<Rightarrow> 'v kwargs \<Rightarrow> 'v world \<Rightarrow> 'v world \<times> error option" where
  "transition_state reg saved_at logged_at target kwargs w =
     (if ''self'' \<in> dom kwargs \<or> ''new_state'' \<in> dom kwargs then (w, Some TypeError)
      else
        let old = state (entity w) in
        if target \<notin> set (get_possible_next_states (entity w))
        then (w, Some (ValueError (cant_transition old target)))
        else
          case execute_hooks reg target ''before'' kwargs w of
            (w1, Some e) \<Rightarrow> (w1, Some e)
          | (w1, None) \<Rightarrow>
              let w2 = w1\<lparr>entity := (entity w1)\<lparr>state := target\<rparr>,
                         trace := trace w1 @ [State_assigned target]\<rparr>;
                  w3 = save saved_at w2;
                  w4 = logs_create logged_at old target kwargs w3
              in execute_hooks reg target ''after'' kwargs w4)"

section \<open>orders/hooks.py\<close>

text \<open>
  The values of keyword arguments that the hooks of the repository are modelled on:
  \<open>None\<close>, a bool, an int or a str.
\<close>

datatype pyval = PNone | PBool bool | PInt int | PStr string

text \<open>\<open>str(n)\<close> for an int, in decimal digits.\<close>

fun str_nat :: "nat \<Rightarrow> string" where
  "str_nat n =
     (if n < 10 then [''0123456789'' ! n]
      else str_nat (n div 10) @ [''0123456789'' ! (n mod 10)])"

declare str_nat.simps [simp del]

definition str_int :: "int \<Rightarrow> string" where
  "str_int i = (if i < 0 then CHR ''-'' # str_nat (nat (- i)) else str_nat (nat i))"

text \<open>\<open>str(v)\<close>, which an f-string applies to a value it formats.\<close>

fun py_str :: "pyval \<Rightarrow> string" where
  "py_str PNone = ''None''"
| "py_str (PBool b) = (if b then ''True'' else ''False'')"
| "py_str (PInt i) = str_int i"
| "py_str (PStr s) = s"

text \<open>
  A keyword parameter with the default \<open>None\<close>, as in \<open>payment_method=None\<close>: the
  argument when the key is given, \<open>None\<close> otherwise.
\<close>

definition default_None :: "pyval kwargs \<Rightarrow> string \<Rightarrow> pyval" where
  "default_None kwargs key = (case kwargs key of None \<Rightarrow> PNone | Some v \<Rightarrow> v)"

text \<open>
  Every hook of the file names its first parameter \<open>order\<close> and receives the order by
  position: a key \<open>order\<close> in \<open>kwargs\<close> makes the call raise \<open>TypeError\<close>.
\<close>

definition validate_payment_method :: "pyval Order \<Rightarrow> pyval kwargs \<Rightarrow> pyval Order \<times> error option" where
  "validate_payment_method order kwargs =
     (if ''order'' \<in> dom kwargs then (order, Some TypeError)
      else
        let payment_method = default_None kwargs ''payment_method'' in
        if payment_method \<notin> set [PStr ''cash'', PStr ''card'']
        then (order, Some (ValueError (''Invalid payment method: '' @ py_str payment_method)))
        else (order\<lparr>metadata := (metadata order)(''payment_method'' \<mapsto> payment_method)\<rparr>, None))"

text \<open>
  \<open>a <= b\<close> between an int and a value: a bool compares as 0 or 1; an int and a str,
  or an int and \<open>None\<close>, are not ordered and the comparison raises \<open>TypeError\<close>.
\<close>

fun as_int :: "pyval \<Rightarrow> int option" where
  "as_int (PBool b) = Some (if b then 1 else 0)"
| "as_int (PInt i) = Some i"
| "as_int PNone = None"
| "as_int (PStr s) = None"

definition int_le_val :: "int \<Rightarrow> pyval \<Rightarrow> error + bool" where
  "int_le_val a v = (case as_int v of None \<Rightarrow> Inl TypeError | Some b \<Rightarrow> Inr (a \<le> b))"

definition val_le_int :: "pyval \<Rightarrow> int \<Rightarrow> error + bool" where
  "val_le_int v b = (case as_int v of None \<Rightarrow> Inl TypeError | Some a \<Rightarrow> Inr (a \<le> b))"

text \<open>The chained comparison \<open>lo <= v <= hi\<close>: \<open>v <= hi\<close> is evaluated only when \<open>lo <= v\<close>.\<close>

definition between :: "int \<Rightarrow> pyval \<Rightarrow> int \<Rightarrow> error + bool" where
  "between lo v hi =
     (case int_le_val lo v of
        Inl e \<Rightarrow> Inl e
      | Inr False \<Rightarrow> Inr False
      | Inr True \<Rightarrow> val_le_int v hi)"

text \<open>
  Line 22, \<open>order.price * (1 - discount / 100)\<close>. \<open>/\<close> is true division: for a bool
  or an int, \<open>discount / 100\<close> is a float, and so is 1 minus it; a str and \<open>None\<close> cannot
  be divided. The price is a \<open>Decimal\<close>, and neither \<open>Decimal.__mul__\<close> nor
  \<open>float.__rmul__\<close> accepts the pair, so the product raises \<open>TypeError\<close>. The value of
  the float decides nothing here; the model keeps only that the factor is a float.
\<close>

datatype factor = Float_factor

definition discount_factor :: "pyval \<Rightarrow> error + factor" where
  "discount_factor discount =
     (case as_int discount of None \<Rightarrow> Inl TypeError | Some i \<Rightarrow> Inr Float_factor)"

fun decimal_times :: "decimal \<Rightarrow> factor \<Rightarrow> error + decimal" where
  "decimal_times d Float_factor = Inl TypeError"

definition apply_discount :: "pyval Order \<Rightarrow> pyval kwargs \<Rightarrow> pyval Order \<times> error option" where
  "apply_discount order kwargs =
     (if ''order'' \<in> dom kwargs then (order, Some TypeError)
      else
        let discount = default_None kwargs ''discount'' in
        if discount = PNone then (order, None)
        else
          case between 0 discount 100 of
            Inl e \<Rightarrow> (order, Some e)
          | Inr False \<Rightarrow>
              (order, Some (ValueError (''Invalid discount percentage: '' @ py_str discount)))
          | Inr True \<Rightarrow>
              (case discount_factor discount of
                 Inl e \<Rightarrow> (order, Some e)
               | Inr f \<Rightarrow>
                   (case decimal_times (price order) f of
                      Inl e \<Rightarrow> (order, Some e)
                    | Inr p \<Rightarrow>
                        (order\<lparr>price := p,
                               metadata := (metadata order)(''discount'' \<mapsto> discount)\<rparr>, None))))"

text \<open>
  The hooks that notify print to the standard output, which is not modelled: they
  leave the order as it is. \<open>notify_payment_success\<close> has the required parameter
  \<open>payment_method\<close>.
\<close>

definition notify_payment_success :: "pyval Order \<Rightarrow> pyval kwargs \<Rightarrow> pyval Order \<times> error option" where
  "notify_payment_success order kwargs =
     (if ''order'' \<in> dom kwargs \<or> ''payment_method'' \<notin> dom kwargs then (order, Some TypeError)
      else (order, None))"

text \<open>
  \<open>datetime.fromisoformat\<close> and \<open>datetime.now()\<close> belong to the standard library and
  are parameters: \<open>fromisoformat\<close> gives a datetime or raises, \<open>now\<close> is the local time,
  a naive datetime. Comparing an aware datetime with a naive one raises \<open>TypeError\<close>,
  and so does \<open>fromisoformat\<close> on an argument that is not a str.
\<close>

datatype datetime = Naive int | Aware int

definition validate_delivery_date ::
    "(string \<Rightarrow> error + datetime) \<Rightarrow> int \<Rightarrow> pyval Order \<Rightarrow> pyval kwargs \<Rightarrow> pyval Order \<times> error option" where
  "validate_delivery_date fromisoformat now order kwargs =
     (if ''order'' \<in> dom kwargs then (order, Some TypeError)
      else
        let delivery_date = default_None kwargs ''delivery_date'' in
        case delivery_date of
          PNone \<Rightarrow> (order, Some (ValueError ''Delivery date is required''))
        | PStr s \<Rightarrow>
            (case fromisoformat s of
               Inl e \<Rightarrow> (order, Some e)
             | Inr (Aware t) \<Rightarrow> (order, Some TypeError)
             | Inr (Naive t) \<Rightarrow>
                 if t < now
                 then (order, Some (ValueError ''Delivery date must be in the future''))
                 else (order\<lparr>metadata := (metadata order)(''delivery_date'' \<mapsto> delivery_date)\<rparr>,
                       None))
        | PBool b \<Rightarrow> (order, Some TypeError)
        | PInt i \<Rightarrow> (order, Some TypeError))"

definition notify_out_for_delivery ::
    "(string \<Rightarrow> error + datetime) \<Rightarrow> pyval Order \<Rightarrow> pyval kwargs \<Rightarrow> pyval Order \<times> error option" where
  "notify_out_for_delivery fromisoformat order kwargs =
     (if ''order'' \<in> dom kwargs then (order, Some TypeError)
      else
        case kwargs ''delivery_date'' of
          None \<Rightarrow> (order, Some TypeError)
        | Some (PStr s) \<Rightarrow>
            (case fromisoformat s of Inl e \<Rightarrow> (order, Some e) | Inr parsed_date \<Rightarrow> (order, None))
        | Some v \<Rightarrow> (order, Some TypeError))"

definition notify_delivery_success :: "pyval Order \<Rightarrow> pyval kwargs \<Rightarrow> pyval Order \<times> error option" where
  "notify_delivery_success order kwargs =
     (if ''order'' \<in> dom kwargs then (order, Some TypeError) else (order, None))"

definition send_questionnaire :: "pyval Order \<Rightarrow> pyval kwargs \<Rightarrow> pyval Order \<times> error option" where
  "send_questionnaire order kwargs =
     (if ''order'' \<in> dom kwargs then (order, Some TypeError) else (order, None))"

text \<open>
  The registry once \<open>hooks.py\<close> is loaded: its decorators in the order in which they
  are applied (of the two on \<open>send_questionnaire\<close>, the lower one first).
\<close>

definition hooks_py :: "(string \<Rightarrow> error + datetime) \<Rightarrow> int \<Rightarrow> pyval registry" where
  "hooks_py fromisoformat now =
     (register_hook CANCELLED ''after'' (Hook ''send_questionnaire'' send_questionnaire)
     (register_hook REFUNDED ''after'' (Hook ''send_questionnaire'' send_questionnaire)
     (register_hook DELIVERED ''after'' (Hook ''notify_delivery_success'' notify_delivery_success)
     (register_hook OUT_FOR_DELIVERY ''after''
        (Hook ''notify_out_for_delivery'' (notify_out_for_delivery fromisoformat))
     (register_hook OUT_FOR_DELIVERY ''before''
        (Hook ''validate_delivery_date'' (validate_delivery_date fromisoformat now))
     (register_hook PROCESSING ''after'' (Hook ''notify_payment_success'' notify_payment_success)
     (register_hook PROCESSING ''before'' (Hook ''apply_discount'' apply_discount)
     (register_hook PROCESSING ''before'' (Hook ''validate_payment_method'' validate_payment_method)
        no_hooks))))))))"

section \<open>Vocabulary of the statements\<close>

text \<open>The hooks registered under a state and a name, none when the name has no list.\<close>

definition registered :: "'v registry \<Rightarrow> State \<Rightarrow> string \<Rightarrow> 'v hook list" where
  "registered reg self name = (case reg self name of None \<Rightarrow> [] | Some hs \<Rightarrow> hs)"

text \<open>The events of calling every hook of a list, in the order of the list.\<close>

definition calls :: "string \<Rightarrow> 'v hook list \<Rightarrow> event list" where
  "calls name hs = map (\<lambda>h. Hook_called name (hook_name h)) hs"

text \<open>
  A run of hooks in which every hook returns: \<open>os\<close> lists the order given to the first
  hook and, after it, the order each hook leaves, and every hook is called on the order
  that its predecessor left. It is stated through the hooks themselves.
\<close>

definition returns_in_turn :: "'v hook list \<Rightarrow> 'v kwargs \<Rightarrow> 'v Order list \<Rightarrow> bool" where
  "returns_in_turn hs kwargs os \<longleftrightarrow>
     length os = Suc (length hs)
     \<and> (\<forall>i<length hs. hook_call (hs ! i) (os ! i) kwargs = (os ! Suc i, None))"

text \<open>The events of lines 50 to 53: the assignment, the save and the log row.\<close>

definition commit_steps :: "State \<Rightarrow> event list" where
  "commit_steps target = [State_assigned target, Saved, Log_created]"

text \<open>The world after lines 50 to 53, started in the world the before-hooks left.\<close>

definition committed :: "nat \<Rightarrow> nat \<Rightarrow> State \<Rightarrow> State \<Rightarrow> 'v kwargs \<Rightarrow> 'v world \<Rightarrow> 'v world" where
  "committed saved_at logged_at old target kwargs w1 =
     logs_create logged_at old target kwargs
       (save saved_at (w1\<lparr>entity := (entity w1)\<lparr>state := target\<rparr>,
                          trace := trace w1 @ [State_assigned target]\<rparr>))"

section \<open>Example data\<close>

text \<open>
  A registry as \<open>hooks.py\<close> leaves it, an order that waits for its payment, as read
  from the database, and the same order while it is processed.
\<close>

definition no_isoformat :: "string \<Rightarrow> error + datetime" where
  "no_isoformat s = Inl (ValueError ''Invalid isoformat string'')"

definition example_hooks :: "pyval registry" where
  "example_hooks = hooks_py no_isoformat 0"

definition pending_order :: "pyval Order" where
  "pending_order = \<lparr>item = ''book'', state = PENDING_PAYMENT, state_changed = 5,
      price = Decimal 10000 (- 2), metadata = Map.empty, monitor_state = PENDING_PAYMENT\<rparr>"

definition pending_world :: "pyval world" where
  "pending_world = \<lparr>entity = pending_order, row = Some pending_order, logs = [], trace = []\<rparr>"

definition processing_order :: "pyval Order" where
  "processing_order = \<lparr>item = ''book'', state = PROCESSING, state_changed = 7,
      price = Decimal 10000 (- 2), metadata = [''payment_method'' \<mapsto> PStr ''card''],
      monitor_state = PROCESSING\<rparr>"

definition processing_world :: "pyval world" where
  "processing_world =
     \<lparr>entity = processing_order, row = Some processing_order,
      logs = [\<lparr>timestamp = 7, old_state = PENDING_PAYMENT, new_state = PROCESSING,
               extra = [''payment_method'' \<mapsto> PStr ''card'']\<rparr>],
      trace = []\<rparr>"

section \<open>The hooks of a state\<close>

lemma run_hooks_row [simp]: "row (fst (run_hooks name hs kwargs w)) = row w"
proof (induction hs arbitrary: w)
  case Nil
  show ?case by simp
next
  case (Cons h hs)
  obtain order r where hc: "hook_call h (entity w) kwargs = (order, r)"
    by (cases "hook_call h (entity w) kwargs")
  show ?case using hc Cons.IH by (cases r) simp_all
qed

lemma run_hooks_logs [simp]: "logs (fst (run_hooks name hs kwargs w)) = logs w"
proof (induction hs arbitrary: w)
  case Nil
  show ?case by simp
next
  case (Cons h hs)
  obtain order r where hc: "hook_call h (entity w) kwargs = (order, r)"
    by (cases "hook_call h (entity w) kwargs")
  show ?case using hc Cons.IH by (cases r) simp_all
qed

lemma run_hooks_returns_trace:
  "snd (run_hooks name hs kwargs w) = None \<Longrightarrow>
   trace (fst (run_hooks name hs kwargs w)) = trace w @ calls name hs"
proof (induction hs arbitrary: w)
  case Nil
  show ?case by (simp add: calls_def)
next
  case (Cons h hs)
  obtain order r where hc: "hook_call h (entity w) kwargs = (order, r)"
    by (cases "hook_call h (entity w) kwargs")
  show ?case
  proof (cases r)
    case (Some e)
    with hc Cons.prems show ?thesis by simp
  next
    case None
    let ?w' = "w\<lparr>entity := order, trace := trace w @ [Hook_called name (hook_name h)]\<rparr>"
    have step: "run_hooks name (h # hs) kwargs w = run_hooks name hs kwargs ?w'"
      using hc None by simp
    with Cons.prems have "snd (run_hooks name hs kwargs ?w') = None" by simp
    then have "trace (fst (run_hooks name hs kwargs ?w')) = trace ?w' @ calls name hs"
      by (rule Cons.IH)
    then show ?thesis unfolding step by (simp add: calls_def)
  qed
qed

lemma run_hooks_trace_prefix:
  "\<exists>evs. trace (fst (run_hooks name hs kwargs w)) = trace w @ evs \<and> prefix evs (calls name hs)"
proof (induction hs arbitrary: w)
  case Nil
  show ?case by (simp add: calls_def)
next
  case (Cons h hs)
  obtain order r where hc: "hook_call h (entity w) kwargs = (order, r)"
    by (cases "hook_call h (entity w) kwargs")
  let ?c = "Hook_called name (hook_name h)"
  let ?w' = "w\<lparr>entity := order, trace := trace w @ [?c]\<rparr>"
  show ?case
  proof (cases r)
    case (Some e)
    have "trace (fst (run_hooks name (h # hs) kwargs w)) = trace w @ [?c]"
      using hc Some by simp
    moreover have "prefix [?c] (calls name (h # hs))" by (simp add: calls_def)
    ultimately show ?thesis by (intro exI [of _ "[?c]"] conjI)
  next
    case None
    have step: "run_hooks name (h # hs) kwargs w = run_hooks name hs kwargs ?w'"
      using hc None by simp
    from Cons.IH [of ?w'] obtain evs where
      evs: "trace (fst (run_hooks name hs kwargs ?w')) = trace ?w' @ evs"
      and pre: "prefix evs (calls name hs)"
      by (elim exE conjE)
    have "trace (fst (run_hooks name (h # hs) kwargs w)) = trace w @ (?c # evs)"
      unfolding step evs by simp
    moreover have "prefix (?c # evs) (calls name (h # hs))"
      using pre by (simp add: calls_def)
    ultimately show ?thesis by (intro exI [of _ "?c # evs"] conjI)
  qed
qed

lemma run_hooks_append:
  "run_hooks name (hs1 @ hs2) kwargs w =
     (case run_hooks name hs1 kwargs w of
        (w1, None) \<Rightarrow> run_hooks name hs2 kwargs w1
      | (w1, Some e) \<Rightarrow> (w1, Some e))"
proof (induction hs1 arbitrary: w)
  case Nil
  show ?case by simp
next
  case (Cons h hs1)
  obtain order r where hc: "hook_call h (entity w) kwargs = (order, r)"
    by (cases "hook_call h (entity w) kwargs")
  show ?case using hc Cons.IH by (cases r) simp_all
qed


lemma execute_hooks_logs [simp]: "logs (fst (execute_hooks reg self name kwargs w)) = logs w"
  by (simp add: execute_hooks_def split: option.splits)

lemma execute_hooks_returns_trace:
  assumes "snd (execute_hooks reg self name kwargs w) = None"
  shows "trace (fst (execute_hooks reg self name kwargs w)) = trace w @ calls name (registered reg self name)"
proof (cases "reg self name")
  case None
  with assms show ?thesis
    by (simp add: execute_hooks_def registered_def calls_def split: if_splits)
next
  case (Some hs)
  from assms have keys: "\<not> (''self'' \<in> dom kwargs \<or> ''name'' \<in> dom kwargs)"
    by (auto simp: execute_hooks_def split: if_splits)
  then have eq: "execute_hooks reg self name kwargs w = run_hooks name hs kwargs w"
    using Some by (simp add: execute_hooks_def)
  have "registered reg self name = hs" using Some by (simp add: registered_def)
  then show ?thesis using assms run_hooks_returns_trace [of name hs kwargs w] unfolding eq by simp
qed

lemma execute_hooks_trace_prefix:
  "\<exists>evs. trace (fst (execute_hooks reg self name kwargs w)) = trace w @ evs
      \<and> prefix evs (calls name (registered reg self name))"
proof (cases "''self'' \<in> dom kwargs \<or> ''name'' \<in> dom kwargs")
  case True
  then have "execute_hooks reg self name kwargs w = (w, Some TypeError)"
    by (simp add: execute_hooks_def)
  then show ?thesis by simp
next
  case False
  show ?thesis
  proof (cases "reg self name")
    case None
    with False have "execute_hooks reg self name kwargs w = (w, None)"
      by (simp add: execute_hooks_def)
    then show ?thesis by simp
  next
    case (Some hs)
    with False have eq: "execute_hooks reg self name kwargs w = run_hooks name hs kwargs w"
      by (simp add: execute_hooks_def)
    have "registered reg self name = hs" using Some by (simp add: registered_def)
    then show ?thesis using run_hooks_trace_prefix [of name hs kwargs w] unfolding eq by simp
  qed
qed

lemma execute_hooks_registered:
  assumes "''self'' \<notin> dom kwargs" and "''name'' \<notin> dom kwargs"
  shows "execute_hooks reg self name kwargs w = run_hooks name (registered reg self name) kwargs w"
  using assms by (simp add: execute_hooks_def registered_def split: option.splits)

lemma execute_hooks_returns_keys:
  assumes "snd (execute_hooks reg self name kwargs w) = None"
  shows "''self'' \<notin> dom kwargs \<and> ''name'' \<notin> dom kwargs"
proof (rule ccontr)
  assume "\<not> (''self'' \<notin> dom kwargs \<and> ''name'' \<notin> dom kwargs)"
  then have "''self'' \<in> dom kwargs \<or> ''name'' \<in> dom kwargs" by blast
  then have "execute_hooks reg self name kwargs w = (w, Some TypeError)"
    by (simp add: execute_hooks_def)
  with assms show False by simp
qed

section \<open>Runs of hooks that return\<close>

lemma returns_in_turn_Nil: "returns_in_turn [] kwargs [order]"
  by (simp add: returns_in_turn_def)

lemma returns_in_turn_Cons:
  assumes "hook_call h order kwargs = (order', None)"
    and "returns_in_turn hs kwargs (order' # os)"
  shows "returns_in_turn (h # hs) kwargs (order # order' # os)"
proof -
  have len: "length (order' # os) = Suc (length hs)"
    and rest: "\<And>i. i < length hs \<Longrightarrow>
      hook_call (hs ! i) ((order' # os) ! i) kwargs = ((order' # os) ! Suc i, None)"
    using assms(2) by (simp_all add: returns_in_turn_def)
  have "hook_call ((h # hs) ! i) ((order # order' # os) ! i) kwargs =
      ((order # order' # os) ! Suc i, None)" if "i < length (h # hs)" for i
  proof (cases i)
    case 0
    then show ?thesis using assms(1) by simp
  next
    case (Suc j)
    with that have "j < length hs" by simp
    from rest [OF this] show ?thesis using Suc by simp
  qed
  then show ?thesis using len by (simp add: returns_in_turn_def)
qed

lemma returns_in_turn_ConsD:
  assumes "returns_in_turn (h # hs) kwargs os"
  obtains order os' where "os = order # os'"
    and "hook_call h order kwargs = (os' ! 0, None)"
    and "returns_in_turn hs kwargs os'"
proof -
  from assms have len: "length os = Suc (Suc (length hs))"
    and all: "\<And>i. i < Suc (length hs) \<Longrightarrow>
      hook_call ((h # hs) ! i) (os ! i) kwargs = (os ! Suc i, None)"
    by (simp_all add: returns_in_turn_def)
  from len obtain order os' where os: "os = order # os'" and len': "length os' = Suc (length hs)"
    by (cases os) simp_all
  from all [of 0] os have first: "hook_call h order kwargs = (os' ! 0, None)" by simp
  have "hook_call (hs ! i) (os' ! i) kwargs = (os' ! Suc i, None)" if "i < length hs" for i
    using all [of "Suc i"] that os by simp
  with len' have "returns_in_turn hs kwargs os'" by (simp add: returns_in_turn_def)
  with os first show ?thesis by (rule that)
qed

lemma run_hooks_in_turn:
  assumes "returns_in_turn hs kwargs os" and "os ! 0 = entity w"
  shows "run_hooks name hs kwargs w =
    (w\<lparr>entity := last os, trace := trace w @ calls name hs\<rparr>, None)"
  using assms
proof (induction hs arbitrary: w os)
  case Nil
  then have "length os = Suc 0" by (simp add: returns_in_turn_def)
  then obtain order where "os = [order]" by (cases os) simp_all
  with Nil.prems(2) show ?case by (simp add: calls_def)
next
  case (Cons h hs)
  from Cons.prems(1) obtain order os' where os: "os = order # os'"
    and first: "hook_call h order kwargs = (os' ! 0, None)"
    and rest: "returns_in_turn hs kwargs os'"
    by (rule returns_in_turn_ConsD)
  from rest have ne: "os' \<noteq> []" by (auto simp: returns_in_turn_def)
  let ?w' = "w\<lparr>entity := os' ! 0, trace := trace w @ [Hook_called name (hook_name h)]\<rparr>"
  have order: "order = entity w" using Cons.prems(2) os by simp
  have step: "run_hooks name (h # hs) kwargs w = run_hooks name hs kwargs ?w'"
    using first order by simp
  have "run_hooks name hs kwargs ?w' =
      (?w'\<lparr>entity := last os', trace := trace ?w' @ calls name hs\<rparr>, None)"
    by (rule Cons.IH [OF rest]) simp
  then show ?case unfolding step using os ne by (simp add: calls_def)
qed

lemma run_hooks_returns_in_turn:
  assumes "run_hooks name hs kwargs w = (w', None)"
  shows "\<exists>os. returns_in_turn hs kwargs os \<and> os ! 0 = entity w
      \<and> w' = w\<lparr>entity := last os, trace := trace w @ calls name hs\<rparr>"
  using assms
proof (induction hs arbitrary: w)
  case Nil
  then have "w' = w" by simp
  then have "w' = w\<lparr>entity := last [entity w], trace := trace w @ calls name []\<rparr>"
    by (simp add: calls_def)
  with returns_in_turn_Nil [of kwargs "entity w"] show ?case
    by (intro exI [of _ "[entity w]"]) simp
next
  case (Cons h hs)
  obtain order r where hc: "hook_call h (entity w) kwargs = (order, r)"
    by (cases "hook_call h (entity w) kwargs")
  let ?w1 = "w\<lparr>entity := order, trace := trace w @ [Hook_called name (hook_name h)]\<rparr>"
  have r: "r = None"
  proof (cases r)
    case None
    then show ?thesis .
  next
    case (Some e)
    with hc Cons.prems show ?thesis by simp
  qed
  with hc Cons.prems have "run_hooks name hs kwargs ?w1 = (w', None)" by simp
  from Cons.IH [OF this] obtain os where turn: "returns_in_turn hs kwargs os"
    and first: "os ! 0 = entity ?w1"
    and w': "w' = ?w1\<lparr>entity := last os, trace := trace ?w1 @ calls name hs\<rparr>"
    by (elim exE conjE)
  from turn have ne: "os \<noteq> []" by (auto simp: returns_in_turn_def)
  then obtain order' os' where os: "os = order' # os'" by (cases os) simp_all
  with first have order': "order' = order" by simp
  have 1: "returns_in_turn (h # hs) kwargs (entity w # os)"
    using hc r turn unfolding os order' by (intro returns_in_turn_Cons) simp_all
  have 2: "(entity w # os) ! 0 = entity w" by simp
  have 3: "w' = w\<lparr>entity := last (entity w # os), trace := trace w @ calls name (h # hs)\<rparr>"
    using w' ne by (simp add: calls_def)
  from 1 2 3 show ?case by (intro exI [of _ "entity w # os"] conjI)
qed

lemma run_hooks_raises_after:
  assumes "returns_in_turn hs1 kwargs os" and "os ! 0 = entity w"
    and "hook_call h (last os) kwargs = (order, Some e)"
  shows "run_hooks name (hs1 @ h # hs2) kwargs w =
    (w\<lparr>entity := order,
       trace := trace w @ calls name hs1 @ [Hook_called name (hook_name h)]\<rparr>, Some e)"
  using assms(3) by (simp add: run_hooks_append run_hooks_in_turn [OF assms(1,2)])

section \<open>The steps of a transition\<close>

lemma transition_state_unbound:
  assumes "''self'' \<in> dom kwargs \<or> ''new_state'' \<in> dom kwargs"
  shows "transition_state reg saved_at logged_at target kwargs w = (w, Some TypeError)"
  using assms by (simp add: transition_state_def)

lemma transition_state_illegal:
  assumes "''self'' \<notin> dom kwargs" and "''new_state'' \<notin> dom kwargs"
    and "target \<notin> set (get_possible_next_states (entity w))"
  shows "transition_state reg saved_at logged_at target kwargs w =
    (w, Some (ValueError (cant_transition (state (entity w)) target)))"
  using assms by (simp add: transition_state_def)

lemma transition_state_vetoed:
  assumes "''self'' \<notin> dom kwargs" and "''new_state'' \<notin> dom kwargs"
    and "target \<in> set (get_possible_next_states (entity w))"
    and "execute_hooks reg target ''before'' kwargs w = (w', Some e)"
  shows "transition_state reg saved_at logged_at target kwargs w = (w', Some e)"
  using assms by (simp add: transition_state_def)

lemma transition_state_accepted:
  assumes "''self'' \<notin> dom kwargs" and "''new_state'' \<notin> dom kwargs"
    and "target \<in> set (get_possible_next_states (entity w))"
    and "execute_hooks reg target ''before'' kwargs w = (w1, None)"
  shows "transition_state reg saved_at logged_at target kwargs w =
    execute_hooks reg target ''after'' kwargs
      (committed saved_at logged_at (state (entity w)) target kwargs w1)"
  using assms by (simp add: transition_state_def committed_def Let_def)

lemma transition_state_returns:
  assumes "snd (transition_state reg saved_at logged_at target kwargs w) = None"
  shows "''self'' \<notin> dom kwargs \<and> ''new_state'' \<notin> dom kwargs \<and> ''name'' \<notin> dom kwargs
      \<and> target \<in> set (get_possible_next_states (entity w))
      \<and> snd (execute_hooks reg target ''before'' kwargs w) = None"
proof -
  have keys: "''self'' \<notin> dom kwargs \<and> ''new_state'' \<notin> dom kwargs"
  proof (rule ccontr)
    assume "\<not> ?thesis"
    then have "''self'' \<in> dom kwargs \<or> ''new_state'' \<in> dom kwargs" by blast
    from transition_state_unbound [OF this] assms show False by simp
  qed
  have legal: "target \<in> set (get_possible_next_states (entity w))"
  proof (rule ccontr)
    assume "target \<notin> set (get_possible_next_states (entity w))"
    with keys assms show False by (simp add: transition_state_illegal)
  qed
  obtain w1 r where before: "execute_hooks reg target ''before'' kwargs w = (w1, r)"
    by (cases "execute_hooks reg target ''before'' kwargs w")
  have r: "r = None"
  proof (cases r)
    case None
    then show ?thesis .
  next
    case (Some e)
    with keys legal before assms show ?thesis by (simp add: transition_state_vetoed)
  qed
  with before have ok: "snd (execute_hooks reg target ''before'' kwargs w) = None" by simp
  from execute_hooks_returns_keys [OF ok] keys legal ok show ?thesis by simp
qed

lemma committed_logs:
  "logs (committed saved_at logged_at old target kwargs w1) =
     logs w1 @ [\<lparr>timestamp = logged_at, old_state = old, new_state = target, extra = kwargs\<rparr>]"
  by (simp add: committed_def logs_create_def save_def Let_def)

lemma committed_trace:
  "trace (committed saved_at logged_at old target kwargs w1) = trace w1 @ commit_steps target"
  by (simp add: committed_def logs_create_def save_def Let_def commit_steps_def)

lemma no_before_hooks_commits:
  assumes "target \<in> set (get_possible_next_states (entity w))"
    and "registered reg target ''before'' = []"
    and "''self'' \<notin> dom kwargs" and "''name'' \<notin> dom kwargs"
    and "''new_state'' \<notin> dom kwargs"
  shows "transition_state reg saved_at logged_at target kwargs w =
    execute_hooks reg target ''after'' kwargs
      (committed saved_at logged_at (state (entity w)) target kwargs w)"
proof -
  have "execute_hooks reg target ''before'' kwargs w = (w, None)"
    using assms(2-4) by (simp add: execute_hooks_def registered_def split: option.splits)
  with assms(3,5,1) show ?thesis by (rule transition_state_accepted)
qed

section \<open>The enumeration\<close>

lemma set_members: "set members = UNIV"
proof -
  have "e \<in> set members" for e by (cases e) (simp_all add: members_def)
  then show ?thesis by blast
qed

lemma State_call_value_of: "State_call (value_of e) = Some e"
  by (cases e) (simp_all add: State_call_def value_of_def members_def)

text \<open>
  C7: for every member, looking its value up gives the member back; \<open>is_valid\<close> accepts
  every member and every member's value, and a string is valid exactly when it is the
  value of some member, so it rejects every other string.
\<close>

theorem state_value_round_trip:
  "State_call (value_of e) = Some e
   \<and> is_valid (Plain (value_of e))
   \<and> is_valid (Member e)
   \<and> (is_valid (Plain s) \<longleftrightarrow> (\<exists>e'. value_of e' = s))"
proof -
  have "is_valid (Plain s) \<longleftrightarrow> (\<exists>e'. value_of e' = s)"
    by (auto simp: set_members)
  moreover have "is_valid (Plain (value_of e))" by (simp add: set_members)
  ultimately show ?thesis by (simp add: State_call_value_of)
qed

theorem state_value_round_trip_witness:
  "State_call (value_of DELIVERED) = Some DELIVERED
   \<and> value_of DELIVERED = ''delivered''
   \<and> is_valid (Plain ''delivered'')
   \<and> is_valid (Member DELIVERED)
   \<and> \<not> is_valid (Plain ''shipped'')
   \<and> \<not> is_valid (Plain ''DELIVERED'')"
proof -
  have v: "value_of DELIVERED = ''delivered''" by (simp add: value_of_def)
  have n1: "\<not> is_valid (Plain ''shipped'')" by (simp add: members_def value_of_def)
  have n2: "\<not> is_valid (Plain ''DELIVERED'')" by (simp add: members_def value_of_def)
  show ?thesis
    using state_value_round_trip [of DELIVERED "''shipped''"] v n1 n2 by simp
qed

lemma choices_value:
  "choices =
     [(''pending_payment'', ''Pending Payment''), (''processing'', ''Processing''),
      (''out_for_delivery'', ''Out For Delivery''), (''delivered'', ''Package Delivered''),
      (''cancelled'', ''Cancelled''), (''refunded'', ''Refunded'')]"
  by code_simp

text \<open>
  C8: a member defined by a pair has the second element as its label, \<open>DELIVERED\<close> the
  label "Package Delivered"; a member defined by a bare value has its name, with the
  underscores replaced by spaces and in title case; \<open>choices\<close> lists the value and the
  label of every member in the order of definition.
\<close>

theorem labels_and_choices:
  "(case class_body e of
      Pair v d \<Rightarrow> desc e = d
    | Bare v \<Rightarrow> desc e = title (replace_underscores (member_name e)))
   \<and> desc DELIVERED = ''Package Delivered''
   \<and> choices = map (\<lambda>e. (value_of e, desc e)) members
   \<and> choices =
     [(''pending_payment'', ''Pending Payment''), (''processing'', ''Processing''),
      (''out_for_delivery'', ''Out For Delivery''), (''delivered'', ''Package Delivered''),
      (''cancelled'', ''Cancelled''), (''refunded'', ''Refunded'')]"
proof -
  have "case class_body e of
      Pair v d \<Rightarrow> desc e = d
    | Bare v \<Rightarrow> desc e = title (replace_underscores (member_name e))"
    by (simp add: desc_def split: member_value.splits)
  moreover have "desc DELIVERED = ''Package Delivered''" by (simp add: desc_def)
  moreover have "choices = map (\<lambda>e. (value_of e, desc e)) members" by (simp add: choices_def)
  ultimately show ?thesis using choices_value by simp
qed

section \<open>The registry of hooks.py and attempts on the example order\<close>

lemma hooks_PROCESSING_before:
  "hooks_py f n PROCESSING ''before'' =
     Some [Hook ''validate_payment_method'' validate_payment_method,
           Hook ''apply_discount'' apply_discount]"
  by (simp add: hooks_py_def register_hook_def no_hooks_def)

lemma hooks_PROCESSING_after:
  "hooks_py f n PROCESSING ''after'' = Some [Hook ''notify_payment_success'' notify_payment_success]"
  by (simp add: hooks_py_def register_hook_def no_hooks_def)

lemma hooks_CANCELLED_before: "hooks_py f n CANCELLED ''before'' = None"
  by (simp add: hooks_py_def register_hook_def no_hooks_def)

lemma hooks_CANCELLED_after:
  "hooks_py f n CANCELLED ''after'' = Some [Hook ''send_questionnaire'' send_questionnaire]"
  by (simp add: hooks_py_def register_hook_def no_hooks_def)

lemma pending_legal:
  "get_possible_next_states (entity pending_world) = [PROCESSING, CANCELLED]"
  by (simp add: get_possible_next_states_def pending_world_def pending_order_def)

lemma cash_before:
  "execute_hooks example_hooks PROCESSING ''before'' [''payment_method'' \<mapsto> PStr ''cash''] pending_world =
     (pending_world\<lparr>entity := pending_order\<lparr>metadata := [''payment_method'' \<mapsto> PStr ''cash'']\<rparr>,
        trace := [Hook_called ''before'' ''validate_payment_method'',
                  Hook_called ''before'' ''apply_discount'']\<rparr>, None)"
  by (simp add: execute_hooks_def example_hooks_def hooks_PROCESSING_before
      validate_payment_method_def apply_discount_def default_None_def
      pending_world_def pending_order_def)

lemma cash_transition:
  "transition_state example_hooks 10 11 PROCESSING [''payment_method'' \<mapsto> PStr ''cash''] pending_world =
     (\<lparr>entity = \<lparr>item = ''book'', state = PROCESSING, state_changed = 10,
                  price = Decimal 10000 (- 2), metadata = [''payment_method'' \<mapsto> PStr ''cash''],
                  monitor_state = PROCESSING\<rparr>,
       row = Some \<lparr>item = ''book'', state = PROCESSING, state_changed = 10,
                  price = Decimal 10000 (- 2), metadata = [''payment_method'' \<mapsto> PStr ''cash''],
                  monitor_state = PROCESSING\<rparr>,
       logs = [\<lparr>timestamp = 11, old_state = PENDING_PAYMENT, new_state = PROCESSING,
                 extra = [''payment_method'' \<mapsto> PStr ''cash'']\<rparr>],
       trace = [Hook_called ''before'' ''validate_payment_method'',
                Hook_called ''before'' ''apply_discount'',
                State_assigned PROCESSING, Saved, Log_created,
                Hook_called ''after'' ''notify_payment_success'']\<rparr>, None)"
proof -
  have legal: "PROCESSING \<in> set (get_possible_next_states (entity pending_world))"
    by (simp add: pending_legal)
  show ?thesis
    unfolding transition_state_accepted [OF _ _ legal cash_before, simplified]
    by (simp add: committed_def save_def logs_create_def Let_def execute_hooks_def
        example_hooks_def hooks_PROCESSING_after notify_payment_success_def
        pending_world_def pending_order_def)
qed


lemma validate_cash:
  "validate_payment_method pending_order
     [''payment_method'' \<mapsto> PStr ''cash'', ''discount'' \<mapsto> PInt 150] =
   (pending_order\<lparr>metadata := [''payment_method'' \<mapsto> PStr ''cash'']\<rparr>, None)"
  by (simp add: validate_payment_method_def default_None_def pending_order_def)

lemma discount_150:
  "apply_discount (pending_order\<lparr>metadata := [''payment_method'' \<mapsto> PStr ''cash'']\<rparr>)
     [''payment_method'' \<mapsto> PStr ''cash'', ''discount'' \<mapsto> PInt 150] =
   (pending_order\<lparr>metadata := [''payment_method'' \<mapsto> PStr ''cash'']\<rparr>,
    Some (ValueError ''Invalid discount percentage: 150''))"
proof -
  have "str_int 150 = ''150''" by code_simp
  then show ?thesis
    by (simp add: apply_discount_def default_None_def between_def int_le_val_def val_le_int_def)
qed

text \<open>
  \<open>apply_discount\<close> never changes the price of an order, and a discount that is an int
  between 0 and 100 makes it raise \<open>TypeError\<close> at the product of line 22.
\<close>

lemma apply_discount_price: "price (fst (apply_discount order kwargs)) = price order"
proof -
  have "decimal_times d f = Inl TypeError" for d f by (cases f) simp
  then show ?thesis
    by (simp add: apply_discount_def Let_def split: sum.splits bool.splits)
qed

lemma apply_discount_in_range:
  assumes "''order'' \<notin> dom kwargs" and "kwargs ''discount'' = Some (PInt d)"
    and "0 \<le> d" and "d \<le> 100"
  shows "apply_discount order kwargs = (order, Some TypeError)"
  using assms
  by (simp add: apply_discount_def default_None_def between_def int_le_val_def val_le_int_def
      discount_factor_def)

section \<open>The claims on transitions\<close>

text \<open>
  C6: the possible next states of an order are the entry of its state in the table, and
  none when the state has no entry; \<open>CANCELLED\<close> and \<open>REFUNDED\<close> have no entry, so
  from them no state is a possible next state.
\<close>

theorem possible_next_states_is_table_entry:
  "get_possible_next_states self =
     (case state_map (state self) of Some next_states \<Rightarrow> next_states | None \<Rightarrow> [])
   \<and> state_map CANCELLED = None \<and> state_map REFUNDED = None
   \<and> (state self = CANCELLED \<or> state self = REFUNDED \<longrightarrow>
        get_possible_next_states self = [] \<and> target \<notin> set (get_possible_next_states self))"
proof -
  have table: "get_possible_next_states self =
     (case state_map (state self) of Some next_states \<Rightarrow> next_states | None \<Rightarrow> [])"
    by (simp add: get_possible_next_states_def split: option.splits)
  have "get_possible_next_states self = []"
    if "state self = CANCELLED \<or> state self = REFUNDED"
    using that by (auto simp: get_possible_next_states_def)
  with table show ?thesis by simp
qed

theorem possible_next_states_is_table_entry_witness:
  "state (pending_order\<lparr>state := CANCELLED\<rparr>) = CANCELLED
   \<and> get_possible_next_states (pending_order\<lparr>state := CANCELLED\<rparr>) = []
   \<and> REFUNDED \<notin> set (get_possible_next_states (pending_order\<lparr>state := CANCELLED\<rparr>))
   \<and> get_possible_next_states pending_order = [PROCESSING, CANCELLED]
   \<and> get_possible_next_states processing_order = [OUT_FOR_DELIVERY, REFUNDED]"
proof -
  have st: "state (pending_order\<lparr>state := CANCELLED\<rparr>) = CANCELLED" by simp
  have pend: "get_possible_next_states pending_order = [PROCESSING, CANCELLED]"
    by (simp add: get_possible_next_states_def pending_order_def)
  have proc: "get_possible_next_states processing_order = [OUT_FOR_DELIVERY, REFUNDED]"
    by (simp add: get_possible_next_states_def processing_order_def)
  show ?thesis
    using possible_next_states_is_table_entry [of "pending_order\<lparr>state := CANCELLED\<rparr>" REFUNDED]
      st pend proc
    by simp
qed

text \<open>
  A transition to a state that is not among the possible next states, called with no
  keyword argument named \<open>self\<close> or \<open>new_state\<close>, raises \<open>ValueError\<close> with a message
  that names the old state and the target, and leaves the world as it was: the order in
  memory with its state and \<open>state_changed\<close>, its row, its log, and no hook is called.
\<close>

lemma illegal_transition_raises_ValueError:
  assumes "''self'' \<notin> dom kwargs" and "''new_state'' \<notin> dom kwargs"
    and "target \<notin> set (get_possible_next_states (entity w))"
  shows "transition_state reg saved_at logged_at target kwargs w =
    (w, Some (ValueError
      (''Can't transition from '' @ value_of (state (entity w)) @ '' to '' @ value_of target)))"
  using assms by (simp add: transition_state_def cant_transition_def str_State_def)

text \<open>
  C1: \<open>DELIVERED\<close> is not a possible next state of an order in \<open>PROCESSING\<close>, yet
  with a keyword argument called \<open>new_state\<close> the call of \<open>transition_state\<close> raises
  \<open>TypeError\<close>, not the \<open>ValueError\<close> of line 46 that names the two states. The world
  is left as it was. (Without a key \<open>self\<close> or \<open>new_state\<close> the call raises that
  \<open>ValueError\<close>: lemma \<open>illegal_transition_raises_ValueError\<close>.)
\<close>

theorem keyword_new_state_hides_illegal_transition:
  "DELIVERED \<notin> set (get_possible_next_states (entity processing_world))
   \<and> transition_state example_hooks 10 11 DELIVERED
        [''new_state'' \<mapsto> PStr ''delivered''] processing_world =
       (processing_world, Some TypeError)"
proof -
  have "DELIVERED \<notin> set (get_possible_next_states (entity processing_world))"
    by (simp add: get_possible_next_states_def processing_world_def processing_order_def)
  moreover have "transition_state example_hooks 10 11 DELIVERED
        [''new_state'' \<mapsto> PStr ''delivered''] processing_world =
       (processing_world, Some TypeError)"
    by (rule transition_state_unbound) simp
  ultimately show ?thesis by simp
qed

text \<open>
  C2: a transition is accepted when its call binds its arguments (no keyword argument
  is named \<open>self\<close> or \<open>new_state\<close>), the target is a possible next state and the
  before-hooks return. An accepted transition adds exactly one row to the log of the
  order, with the state the order had when the call began as \<open>old_state\<close>, the target as
  \<open>new_state\<close> and the keyword arguments as \<open>extra\<close>; any other attempt adds none.
\<close>

theorem accepted_transition_logs_one_record:
  "logs (fst (transition_state reg saved_at logged_at target kwargs w)) =
     (if ''self'' \<notin> dom kwargs \<and> ''new_state'' \<notin> dom kwargs
         \<and> target \<in> set (get_possible_next_states (entity w))
         \<and> snd (execute_hooks reg target ''before'' kwargs w) = None
      then logs w @ [\<lparr>timestamp = logged_at, old_state = state (entity w),
                       new_state = target, extra = kwargs\<rparr>]
      else logs w)"
proof (cases "''self'' \<in> dom kwargs \<or> ''new_state'' \<in> dom kwargs")
  case True
  from transition_state_unbound [OF this] True show ?thesis by auto
next
  case False
  then have keys: "''self'' \<notin> dom kwargs" "''new_state'' \<notin> dom kwargs" by simp_all
  show ?thesis
  proof (cases "target \<in> set (get_possible_next_states (entity w))")
    case False
    with keys show ?thesis by (simp add: transition_state_illegal)
  next
    case True
    obtain w1 r where before: "execute_hooks reg target ''before'' kwargs w = (w1, r)"
      by (cases "execute_hooks reg target ''before'' kwargs w")
    have w1_logs: "logs w1 = logs w"
      using execute_hooks_logs [of reg target "''before''" kwargs w] before by simp
    show ?thesis
    proof (cases r)
      case (Some e)
      with keys True before w1_logs show ?thesis by (simp add: transition_state_vetoed)
    next
      case None
      with keys True before w1_logs show ?thesis
        by (simp add: transition_state_accepted committed_logs)
    qed
  qed
qed

theorem accepted_transition_logs_one_record_witness:
  "''self'' \<notin> dom [''payment_method'' \<mapsto> PStr ''cash'']
   \<and> ''new_state'' \<notin> dom [''payment_method'' \<mapsto> PStr ''cash'']
   \<and> PROCESSING \<in> set (get_possible_next_states (entity pending_world))
   \<and> snd (execute_hooks example_hooks PROCESSING ''before''
            [''payment_method'' \<mapsto> PStr ''cash''] pending_world) = None
   \<and> logs pending_world = []
   \<and> logs (fst (transition_state example_hooks 10 11 PROCESSING
              [''payment_method'' \<mapsto> PStr ''cash''] pending_world)) =
       [\<lparr>timestamp = 11, old_state = PENDING_PAYMENT, new_state = PROCESSING,
         extra = [''payment_method'' \<mapsto> PStr ''cash'']\<rparr>]"
proof -
  have legal: "PROCESSING \<in> set (get_possible_next_states (entity pending_world))"
    by (simp add: pending_legal)
  have ok: "snd (execute_hooks example_hooks PROCESSING ''before''
            [''payment_method'' \<mapsto> PStr ''cash''] pending_world) = None"
    by (simp add: cash_before)
  have old: "state (entity pending_world) = PENDING_PAYMENT" "logs pending_world = []"
    by (simp_all add: pending_world_def pending_order_def)
  show ?thesis
    using accepted_transition_logs_one_record
      [of example_hooks 10 11 PROCESSING "[''payment_method'' \<mapsto> PStr ''cash'']" pending_world]
      legal ok old
    by simp
qed

text \<open>
  The calls of a possible transition are always the beginning of the sequence: the
  hooks registered for the target under \<open>before\<close> in the order of registration, the
  assignment of the state, the save and the log row, the hooks registered under
  \<open>after\<close> in the order of registration.
\<close>

lemma transition_trace_prefix:
  "\<exists>evs. trace (fst (transition_state reg saved_at logged_at target kwargs w)) = trace w @ evs
      \<and> prefix evs (calls ''before'' (registered reg target ''before'') @ commit_steps target
                     @ calls ''after'' (registered reg target ''after''))"
proof -
  let ?befores = "calls ''before'' (registered reg target ''before'')"
  let ?afters = "calls ''after'' (registered reg target ''after'')"
  let ?t = "transition_state reg saved_at logged_at target kwargs w"
  have stays: ?thesis if "fst ?t = w"
    using that by (intro exI [of _ "[]"]) simp
  show ?thesis
  proof (cases "''self'' \<in> dom kwargs \<or> ''new_state'' \<in> dom kwargs")
    case True
    from transition_state_unbound [OF this] show ?thesis by (intro stays) simp
  next
    case False
    then have keys: "''self'' \<notin> dom kwargs" "''new_state'' \<notin> dom kwargs" by simp_all
    show ?thesis
    proof (cases "target \<in> set (get_possible_next_states (entity w))")
      case False
      with keys show ?thesis by (intro stays) (simp add: transition_state_illegal)
    next
      case legal: True
      obtain w1 r where before: "execute_hooks reg target ''before'' kwargs w = (w1, r)"
        by (cases "execute_hooks reg target ''before'' kwargs w")
      show ?thesis
      proof (cases r)
        case (Some e)
        have t: "?t = (w1, Some e)"
          using keys legal before Some by (simp add: transition_state_vetoed)
        from execute_hooks_trace_prefix [of reg target "''before''" kwargs w] before
        obtain evs where evs: "trace w1 = trace w @ evs" and pre: "prefix evs ?befores"
          by auto
        from pre have "prefix evs (?befores @ commit_steps target @ ?afters)"
          by (rule prefix_prefix)
        with evs t show ?thesis by (intro exI [of _ evs]) simp
      next
        case None
        let ?w4 = "committed saved_at logged_at (state (entity w)) target kwargs w1"
        have t: "?t = execute_hooks reg target ''after'' kwargs ?w4"
          using keys legal before None by (simp add: transition_state_accepted)
        have "snd (execute_hooks reg target ''before'' kwargs w) = None"
          using before None by simp
        from execute_hooks_returns_trace [OF this] before
        have w1: "trace w1 = trace w @ ?befores" by simp
        have w4: "trace ?w4 = trace w @ ?befores @ commit_steps target"
          by (simp add: committed_trace w1)
        from execute_hooks_trace_prefix [of reg target "''after''" kwargs ?w4]
        obtain evs2 where evs2: "trace (fst ?t) = trace ?w4 @ evs2" and pre2: "prefix evs2 ?afters"
          unfolding t by auto
        let ?evs = "?befores @ commit_steps target @ evs2"
        have 1: "trace (fst ?t) = trace w @ ?evs" using evs2 w4 by simp
        have 2: "prefix ?evs (?befores @ commit_steps target @ ?afters)"
          using pre2 by simp
        from 1 2 show ?thesis by (intro exI [of _ ?evs] conjI)
      qed
    qed
  qed
qed

text \<open>
  C3: a possible transition that returns has called the hooks registered for the target
  under \<open>before\<close> in the order of registration, the first on the order as the caller
  gave it, with its old state, and each of the others on the order that its predecessor
  left. What the last of them left, with the state set to the target (and
  \<open>state_changed\<close> set to the time of the save when the state differs from the one
  seen last), is what the row holds. The log has its new row. The hooks registered under
  \<open>after\<close> were then called in the order of registration, the first on the order as
  saved, each of the others on what its predecessor left; what the last of them left is
  the order in memory, and the row does not have it. The calls and steps are recorded
  in that order. Whether it returns or raises, the calls of a possible transition are
  the beginning of that sequence.
\<close>

theorem hooks_run_in_order_around_commit:
  assumes "target \<in> set (get_possible_next_states (entity w))"
  shows "(\<exists>evs. trace (fst (transition_state reg saved_at logged_at target kwargs w)) = trace w @ evs
        \<and> prefix evs (calls ''before'' (registered reg target ''before'') @ commit_steps target
                       @ calls ''after'' (registered reg target ''after'')))
      \<and> (snd (transition_state reg saved_at logged_at target kwargs w) = None \<longrightarrow>
          (\<exists>os ps.
             returns_in_turn (registered reg target ''before'') kwargs os
           \<and> os ! 0 = entity w
           \<and> returns_in_turn (registered reg target ''after'') kwargs ps
           \<and> ps ! 0 =
               (if monitor_state (last os) \<noteq> target
                then (last os)\<lparr>state := target, state_changed := saved_at, monitor_state := target\<rparr>
                else (last os)\<lparr>state := target\<rparr>)
           \<and> fst (transition_state reg saved_at logged_at target kwargs w) =
               \<lparr>entity = last ps, row = Some (ps ! 0),
                logs = logs w @ [\<lparr>timestamp = logged_at, old_state = state (entity w),
                                  new_state = target, extra = kwargs\<rparr>],
                trace = trace w @ calls ''before'' (registered reg target ''before'')
                        @ [State_assigned target, Saved, Log_created]
                        @ calls ''after'' (registered reg target ''after'')\<rparr>))"
proof (intro conjI impI)
  show "\<exists>evs. trace (fst (transition_state reg saved_at logged_at target kwargs w)) = trace w @ evs
        \<and> prefix evs (calls ''before'' (registered reg target ''before'') @ commit_steps target
                       @ calls ''after'' (registered reg target ''after''))"
    by (rule transition_trace_prefix)
next
  let ?bs = "registered reg target ''before''"
  let ?as = "registered reg target ''after''"
  let ?t = "transition_state reg saved_at logged_at target kwargs w"
  assume ret: "snd ?t = None"
  from transition_state_returns [OF ret]
  have keys: "''self'' \<notin> dom kwargs" "''new_state'' \<notin> dom kwargs" "''name'' \<notin> dom kwargs"
    and ok: "snd (execute_hooks reg target ''before'' kwargs w) = None"
    by simp_all
  obtain w1 where "execute_hooks reg target ''before'' kwargs w = (w1, None)"
    using ok by (cases "execute_hooks reg target ''before'' kwargs w") simp
  note before = this
  then have "run_hooks ''before'' ?bs kwargs w = (w1, None)"
    by (simp add: execute_hooks_registered [OF keys(1,3)])
  from run_hooks_returns_in_turn [OF this] obtain os where
    os: "returns_in_turn ?bs kwargs os" "os ! 0 = entity w"
    and w1: "w1 = w\<lparr>entity := last os, trace := trace w @ calls ''before'' ?bs\<rparr>"
    by (elim exE conjE)
  let ?w4 = "committed saved_at logged_at (state (entity w)) target kwargs w1"
  have t: "?t = run_hooks ''after'' ?as kwargs ?w4"
    using transition_state_accepted [OF keys(1,2) assms before]
    by (simp add: execute_hooks_registered [OF keys(1,3)])
  obtain w5 where after: "run_hooks ''after'' ?as kwargs ?w4 = (w5, None)"
    using ret unfolding t by (cases "run_hooks ''after'' ?as kwargs ?w4") simp
  from run_hooks_returns_in_turn [OF this] obtain ps where
    ps: "returns_in_turn ?as kwargs ps" "ps ! 0 = entity ?w4"
    and w5: "w5 = ?w4\<lparr>entity := last ps, trace := trace ?w4 @ calls ''after'' ?as\<rparr>"
    by (elim exE conjE)
  have saved: "entity ?w4 =
      (if monitor_state (last os) \<noteq> target
       then (last os)\<lparr>state := target, state_changed := saved_at, monitor_state := target\<rparr>
       else (last os)\<lparr>state := target\<rparr>)"
    by (simp add: committed_def save_def logs_create_def Let_def w1)
  have row: "row ?w4 = Some (entity ?w4)"
    by (simp add: committed_def save_def logs_create_def Let_def)
  have logs: "logs ?w4 = logs w @ [\<lparr>timestamp = logged_at, old_state = state (entity w),
                                  new_state = target, extra = kwargs\<rparr>]"
    by (simp add: committed_logs w1)
  have trace: "trace ?w4 = trace w @ calls ''before'' ?bs @ [State_assigned target, Saved, Log_created]"
    by (simp add: committed_trace commit_steps_def w1)
  have "fst ?t = w5" unfolding t after by simp
  also have "\<dots> = \<lparr>entity = last ps, row = Some (ps ! 0),
                logs = logs w @ [\<lparr>timestamp = logged_at, old_state = state (entity w),
                                  new_state = target, extra = kwargs\<rparr>],
                trace = trace w @ calls ''before'' ?bs
                        @ [State_assigned target, Saved, Log_created]
                        @ calls ''after'' ?as\<rparr>"
    unfolding w5 using row logs trace ps(2) by (cases ?w4) simp
  finally have final: "fst ?t = \<lparr>entity = last ps, row = Some (ps ! 0),
                logs = logs w @ [\<lparr>timestamp = logged_at, old_state = state (entity w),
                                  new_state = target, extra = kwargs\<rparr>],
                trace = trace w @ calls ''before'' ?bs
                        @ [State_assigned target, Saved, Log_created]
                        @ calls ''after'' ?as\<rparr>" .
  from ps(2) saved have first: "ps ! 0 =
      (if monitor_state (last os) \<noteq> target
       then (last os)\<lparr>state := target, state_changed := saved_at, monitor_state := target\<rparr>
       else (last os)\<lparr>state := target\<rparr>)"
    by simp
  from os ps(1) first final
  show "\<exists>os ps.
             returns_in_turn ?bs kwargs os
           \<and> os ! 0 = entity w
           \<and> returns_in_turn ?as kwargs ps
           \<and> ps ! 0 =
               (if monitor_state (last os) \<noteq> target
                then (last os)\<lparr>state := target, state_changed := saved_at, monitor_state := target\<rparr>
                else (last os)\<lparr>state := target\<rparr>)
           \<and> fst ?t =
               \<lparr>entity = last ps, row = Some (ps ! 0),
                logs = logs w @ [\<lparr>timestamp = logged_at, old_state = state (entity w),
                                  new_state = target, extra = kwargs\<rparr>],
                trace = trace w @ calls ''before'' ?bs
                        @ [State_assigned target, Saved, Log_created]
                        @ calls ''after'' ?as\<rparr>"
    by (intro exI [of _ os] exI [of _ ps] conjI)
qed

theorem hooks_run_in_order_around_commit_witness:
  "PROCESSING \<in> set (get_possible_next_states (entity pending_world))
   \<and> snd (transition_state example_hooks 10 11 PROCESSING
            [''payment_method'' \<mapsto> PStr ''cash''] pending_world) = None
   \<and> returns_in_turn (registered example_hooks PROCESSING ''before'')
        [''payment_method'' \<mapsto> PStr ''cash'']
        [pending_order,
         pending_order\<lparr>metadata := [''payment_method'' \<mapsto> PStr ''cash'']\<rparr>,
         pending_order\<lparr>metadata := [''payment_method'' \<mapsto> PStr ''cash'']\<rparr>]
   \<and> fst (transition_state example_hooks 10 11 PROCESSING
            [''payment_method'' \<mapsto> PStr ''cash''] pending_world) =
       \<lparr>entity = \<lparr>item = ''book'', state = PROCESSING, state_changed = 10,
                  price = Decimal 10000 (- 2), metadata = [''payment_method'' \<mapsto> PStr ''cash''],
                  monitor_state = PROCESSING\<rparr>,
        row = Some \<lparr>item = ''book'', state = PROCESSING, state_changed = 10,
                  price = Decimal 10000 (- 2), metadata = [''payment_method'' \<mapsto> PStr ''cash''],
                  monitor_state = PROCESSING\<rparr>,
        logs = [\<lparr>timestamp = 11, old_state = PENDING_PAYMENT, new_state = PROCESSING,
                 extra = [''payment_method'' \<mapsto> PStr ''cash'']\<rparr>],
        trace = [Hook_called ''before'' ''validate_payment_method'',
                 Hook_called ''before'' ''apply_discount'',
                 State_assigned PROCESSING, Saved, Log_created,
                 Hook_called ''after'' ''notify_payment_success'']\<rparr>"
proof -
  let ?kw = "[''payment_method'' \<mapsto> PStr ''cash'']"
  let ?paid = "pending_order\<lparr>metadata := [''payment_method'' \<mapsto> PStr ''cash'']\<rparr>"
  have legal: "PROCESSING \<in> set (get_possible_next_states (entity pending_world))"
    by (simp add: pending_legal)
  have 1: "hook_call (Hook ''validate_payment_method'' validate_payment_method) pending_order ?kw =
      (?paid, None)"
    by (simp add: validate_payment_method_def default_None_def pending_order_def)
  have 2: "hook_call (Hook ''apply_discount'' apply_discount) ?paid ?kw = (?paid, None)"
    by (simp add: apply_discount_def default_None_def)
  have turn: "returns_in_turn (registered example_hooks PROCESSING ''before'') ?kw
      [pending_order, ?paid, ?paid]"
    unfolding registered_def example_hooks_def hooks_PROCESSING_before option.case
    by (intro returns_in_turn_Cons returns_in_turn_Nil 1 2)
  show ?thesis
    using hooks_run_in_order_around_commit
      [OF legal, of example_hooks 10 11 "[''payment_method'' \<mapsto> PStr ''cash'']"]
      legal turn
    by (simp add: cash_transition)
qed



text \<open>
  C5: let the call bind its arguments (no keyword argument named \<open>self\<close>,
  \<open>new_state\<close> or \<open>name\<close>) and the target be possible. When the before-hooks up to
  some hook return, each called on the order that its predecessor left, and that hook,
  called on what they left, raises, then the order in memory after the failed attempt is
  the order as the raising hook left it: what the earlier hooks did to the order is
  there, and nothing restores the order the attempt began with. On the example order,
  \<open>validate_payment_method\<close> has written \<open>payment_method\<close> into \<open>metadata\<close> when
  \<open>apply_discount\<close> refuses the discount 150, and the entry stays, while the row is
  untouched.
\<close>

theorem earlier_hook_mutations_are_kept:
  assumes "''self'' \<notin> dom kwargs" and "''new_state'' \<notin> dom kwargs" and "''name'' \<notin> dom kwargs"
    and "target \<in> set (get_possible_next_states (entity w))"
    and "reg target ''before'' = Some (hs1 @ h # hs2)"
    and "returns_in_turn hs1 kwargs os" and "os ! 0 = entity w"
    and "hook_call h (last os) kwargs = (order, Some e)"
  shows "transition_state reg saved_at logged_at target kwargs w =
    (w\<lparr>entity := order,
       trace := trace w @ calls ''before'' hs1 @ [Hook_called ''before'' (hook_name h)]\<rparr>,
     Some e)"
proof -
  have "execute_hooks reg target ''before'' kwargs w =
      run_hooks ''before'' (hs1 @ h # hs2) kwargs w"
    using assms(1,3,5) by (simp add: execute_hooks_def)
  also have "\<dots> =
      (w\<lparr>entity := order,
         trace := trace w @ calls ''before'' hs1 @ [Hook_called ''before'' (hook_name h)]\<rparr>,
       Some e)"
    using assms(6-8) by (rule run_hooks_raises_after)
  finally show ?thesis using assms(1,2,4) by (intro transition_state_vetoed)
qed

theorem earlier_hook_mutations_are_kept_witness:
  "PROCESSING \<in> set (get_possible_next_states (entity pending_world))
   \<and> example_hooks PROCESSING ''before'' =
       Some ([Hook ''validate_payment_method'' validate_payment_method]
             @ Hook ''apply_discount'' apply_discount # [])
   \<and> returns_in_turn [Hook ''validate_payment_method'' validate_payment_method]
        [''payment_method'' \<mapsto> PStr ''cash'', ''discount'' \<mapsto> PInt 150]
        [pending_order, pending_order\<lparr>metadata := [''payment_method'' \<mapsto> PStr ''cash'']\<rparr>]
   \<and> metadata (entity pending_world) ''payment_method'' = None
   \<and> row pending_world = Some pending_order
   \<and> transition_state example_hooks 10 11 PROCESSING
        [''payment_method'' \<mapsto> PStr ''cash'', ''discount'' \<mapsto> PInt 150] pending_world =
       (pending_world\<lparr>entity := pending_order\<lparr>metadata := [''payment_method'' \<mapsto> PStr ''cash'']\<rparr>,
          trace := [Hook_called ''before'' ''validate_payment_method'',
                    Hook_called ''before'' ''apply_discount'']\<rparr>,
        Some (ValueError ''Invalid discount percentage: 150''))"
proof -
  let ?kw = "[''payment_method'' \<mapsto> PStr ''cash'', ''discount'' \<mapsto> PInt 150]"
  let ?paid = "pending_order\<lparr>metadata := [''payment_method'' \<mapsto> PStr ''cash'']\<rparr>"
  have legal: "PROCESSING \<in> set (get_possible_next_states (entity pending_world))"
    by (simp add: pending_legal)
  have keys: "''self'' \<notin> dom ?kw" "''new_state'' \<notin> dom ?kw" "''name'' \<notin> dom ?kw"
    by simp_all
  have reg: "example_hooks PROCESSING ''before'' =
      Some ([Hook ''validate_payment_method'' validate_payment_method]
            @ Hook ''apply_discount'' apply_discount # [])"
    by (simp add: example_hooks_def hooks_PROCESSING_before)
  have "hook_call (Hook ''validate_payment_method'' validate_payment_method) pending_order ?kw =
      (?paid, None)"
    using validate_cash by simp
  then have turn: "returns_in_turn [Hook ''validate_payment_method'' validate_payment_method] ?kw
      [pending_order, ?paid]"
    by (intro returns_in_turn_Cons returns_in_turn_Nil)
  have first: "[pending_order, ?paid] ! 0 = entity pending_world"
    by (simp add: pending_world_def)
  have fails: "hook_call (Hook ''apply_discount'' apply_discount) (last [pending_order, ?paid]) ?kw =
      (?paid, Some (ValueError ''Invalid discount percentage: 150''))"
    using discount_150 by simp
  have old: "metadata (entity pending_world) ''payment_method'' = None"
    "row pending_world = Some pending_order"
    by (simp_all add: pending_world_def pending_order_def)
  have empty: "trace pending_world = []" by (simp add: pending_world_def)
  show ?thesis
    using earlier_hook_mutations_are_kept
        [where reg = example_hooks and saved_at = 10 and logged_at = 11,
         OF keys legal reg turn first fails] legal reg turn old
    by (simp add: calls_def empty)
qed

text \<open>
  C9: the transition of the example order to \<open>PROCESSING\<close> with
  \<open>payment_method="cash"\<close> and \<open>discount=10\<close>. The price of the order is a
  \<open>Decimal\<close>, and \<open>apply_discount\<close> multiplies it by a float: the hook raises
  \<open>TypeError\<close>, the transition stops before the commit, the state and the price stay
  as they were and no log row is made; only \<open>payment_method\<close> has reached \<open>metadata\<close>,
  in memory.
\<close>

theorem discount_of_decimal_price_raises:
  "transition_state example_hooks 10 11 PROCESSING
     [''payment_method'' \<mapsto> PStr ''cash'', ''discount'' \<mapsto> PInt 10] pending_world =
   (pending_world\<lparr>entity := pending_order\<lparr>metadata := [''payment_method'' \<mapsto> PStr ''cash'']\<rparr>,
      trace := [Hook_called ''before'' ''validate_payment_method'',
                Hook_called ''before'' ''apply_discount'']\<rparr>,
    Some TypeError)"
proof -
  let ?kw = "[''payment_method'' \<mapsto> PStr ''cash'', ''discount'' \<mapsto> PInt 10]"
  have legal: "PROCESSING \<in> set (get_possible_next_states (entity pending_world))"
    by (simp add: pending_legal)
  have disc: "apply_discount order ?kw = (order, Some TypeError)" for order
    by (rule apply_discount_in_range [where d = 10]) simp_all
  have "execute_hooks example_hooks PROCESSING ''before'' ?kw pending_world =
      (pending_world\<lparr>entity := pending_order\<lparr>metadata := [''payment_method'' \<mapsto> PStr ''cash'']\<rparr>,
         trace := [Hook_called ''before'' ''validate_payment_method'',
                   Hook_called ''before'' ''apply_discount'']\<rparr>,
       Some TypeError)"
    by (simp add: execute_hooks_def example_hooks_def hooks_PROCESSING_before disc
        validate_payment_method_def default_None_def pending_world_def pending_order_def)
  with legal show ?thesis by (intro transition_state_vetoed) simp_all
qed

text \<open>
  C10: \<open>CANCELLED\<close> has no before-hooks and can follow \<open>PENDING_PAYMENT\<close>, yet with
  a keyword argument called \<open>name\<close> the call of \<open>execute_hooks\<close> raises \<open>TypeError\<close>
  and the transition stops before the commit. (Without a key \<open>self\<close>, \<open>name\<close> or
  \<open>new_state\<close> such a transition goes on to the commit: lemma
  \<open>no_before_hooks_commits\<close>.)
\<close>

theorem keyword_name_stops_transition_without_hooks:
  "registered example_hooks CANCELLED ''before'' = []
   \<and> CANCELLED \<in> set (get_possible_next_states (entity pending_world))
   \<and> execute_hooks example_hooks CANCELLED ''before'' [''name'' \<mapsto> PStr ''Ann''] pending_world =
       (pending_world, Some TypeError)
   \<and> transition_state example_hooks 10 11 CANCELLED [''name'' \<mapsto> PStr ''Ann''] pending_world =
       (pending_world, Some TypeError)"
proof -
  have legal: "CANCELLED \<in> set (get_possible_next_states (entity pending_world))"
    by (simp add: pending_legal)
  have none: "registered example_hooks CANCELLED ''before'' = []"
    by (simp add: registered_def example_hooks_def hooks_CANCELLED_before)
  have stop: "execute_hooks example_hooks CANCELLED ''before'' [''name'' \<mapsto> PStr ''Ann''] pending_world =
       (pending_world, Some TypeError)"
    by (simp add: execute_hooks_def)
  from legal stop have "transition_state example_hooks 10 11 CANCELLED [''name'' \<mapsto> PStr ''Ann''] pending_world =
       (pending_world, Some TypeError)"
    by (intro transition_state_vetoed) simp_all
  with legal none stop show ?thesis by simp
qed

end
